theory Spec2Isabelle
  imports Complex_Main
begin

section \<open>Joystick to keyboard mapper: the key-state engine of joystick_to_keyboard.py\<close>

text \<open>
  The program keeps one global set \<open>pressed_keys\<close> of key names and turns controller
  events into calls of a keyboard injector. Keys are the strings of the source
  (\<open>''w''\<close>, \<open>''s''\<close>, \<open>''a''\<close>, \<open>''d''\<close>, \<open>''enter''\<close>). Globals become an explicit state
  that every function takes and returns; the calls made to the injector and the lines
  printed by the exception handlers are appended to two logs of that state, so that
  "issues a call" and "reports a failure" are facts about the state.
\<close>

subsection \<open>The injector\<close>

text \<open>
  \<open>pkey\<close> is the argument handed to pynput's \<open>keyboard.press\<close> and
  \<open>keyboard.release\<close>: a member of pynput's \<open>Key\<close> enumeration or a plain character
  string. In the source \<open>Key.up if Key.up else 'w'\<close> always selects the enumeration
  member, which is truthy.
\<close>

datatype pkey = Key_up | Key_down | Key_left | Key_right | Key_enter | Char_key string

datatype inj_call =
    Kb_press pkey        \<comment> \<open>\<open>keyboard.press(...)\<close>\<close>
  | Kb_release pkey      \<comment> \<open>\<open>keyboard.release(...)\<close>\<close>
  | Xdo_keydown string   \<comment> \<open>\<open>subprocess.run(['xdotool', 'keydown', key], ...)\<close>\<close>
  | Xdo_keyup string     \<comment> \<open>\<open>subprocess.run(['xdotool', 'keyup', key], ...)\<close>\<close>

datatype message =
    Error_pressing string     \<comment> \<open>\<open>print(f"Error pressing key {key}: {e}")\<close>\<close>
  | Error_releasing string    \<comment> \<open>\<open>print(f"Error releasing key {key}: {e}")\<close>\<close>
  | Error_releasing_enter     \<comment> \<open>\<open>print(f"Error releasing enter: {e}")\<close>\<close>

text \<open>
  The environment fixes what the program cannot decide: which backend was imported
  (\<open>USE_PYNPUT\<close>) and which injector calls raise. \<open>raises n\<close> says whether the call
  made when \<open>n\<close> calls have been made before it raises an exception, which covers every
  pattern of failures along a run. Only the pynput calls sit inside \<open>try\<close>/\<open>except\<close>;
  the xdotool fallback runs \<open>subprocess.run\<close> without \<open>check=True\<close>, so the exit
  status of xdotool is never turned into an exception, and the fallback is modelled on a
  host where the xdotool executable can be started.
\<close>

record env =
  USE_PYNPUT :: bool
  raises :: "nat \<Rightarrow> bool"

record state =
  pressed_keys :: "string set"
  calls :: "inj_call list"
  printed :: "message list"

definition initial :: state where
  "initial = \<lparr>pressed_keys = {}, calls = [], printed = []\<rparr>"

definition DPAD_MAPPING :: "string \<rightharpoonup> string" where
  "DPAD_MAPPING = [''up'' \<mapsto> ''w'', ''down'' \<mapsto> ''s'', ''left'' \<mapsto> ''a'', ''right'' \<mapsto> ''d'']"

definition BUTTON_MAPPING :: "int \<rightharpoonup> string" where
  "BUTTON_MAPPING =
     [0 \<mapsto> ''w'', 1 \<mapsto> ''s'', 2 \<mapsto> ''a'', 3 \<mapsto> ''d'', 4 \<mapsto> ''enter'', 5 \<mapsto> ''enter'']"

subsection \<open>press_key and release_key\<close>

text \<open>The \<open>if\<close>/\<open>elif\<close> chain of \<open>press_key\<close> that picks the pynput argument.\<close>

definition kb_press_arg :: "string \<Rightarrow> pkey" where
  "kb_press_arg key =
     (if key = ''w'' then Key_up
      else if key = ''s'' then Key_down
      else if key = ''a'' then Key_left
      else if key = ''d'' then Key_right
      else if key = ''enter'' then Key_enter
      else Char_key key)"

text \<open>The chain of \<open>release_key\<close>; it has no branch for \<open>''enter''\<close>, which returned earlier.\<close>

definition kb_release_arg :: "string \<Rightarrow> pkey" where
  "kb_release_arg key =
     (if key = ''w'' then Key_up
      else if key = ''s'' then Key_down
      else if key = ''a'' then Key_left
      else if key = ''d'' then Key_right
      else Char_key key)"

text \<open>
  One injector call: the call is logged; under pynput, when it raises, the handler prints
  the message \<open>m\<close> and execution goes on.
\<close>

definition inject :: "env \<Rightarrow> inj_call \<Rightarrow> message \<Rightarrow> state \<Rightarrow> state" where
  "inject e c m s =
     (if raises e (length (calls s))
      then s\<lparr>calls := calls s @ [c], printed := printed s @ [m]\<rparr>
      else s\<lparr>calls := calls s @ [c]\<rparr>)"

definition press_key :: "env \<Rightarrow> string \<Rightarrow> state \<Rightarrow> state" where
  "press_key e key s =
     (if key \<noteq> ''enter'' \<and> key \<in> pressed_keys s then s
      else
        let s1 = (if key \<noteq> ''enter''
                  then s\<lparr>pressed_keys := insert key (pressed_keys s)\<rparr> else s)
        in if USE_PYNPUT e
           then inject e (Kb_press (kb_press_arg key)) (Error_pressing key) s1
           else s1\<lparr>calls := calls s1 @ [Xdo_keydown key]\<rparr>)"

definition release_key :: "env \<Rightarrow> string \<Rightarrow> state \<Rightarrow> state" where
  "release_key e key s =
     (if key = ''enter''
      then (if USE_PYNPUT e
            then inject e (Kb_release Key_enter) Error_releasing_enter s
            else s\<lparr>calls := calls s @ [Xdo_keyup ''Return'']\<rparr>)
      else if key \<notin> pressed_keys s then s
      else
        let s1 = s\<lparr>pressed_keys := pressed_keys s - {key}\<rparr>
        in if USE_PYNPUT e
           then inject e (Kb_release (kb_release_arg key)) (Error_releasing key) s1
           else s1\<lparr>calls := calls s1 @ [Xdo_keyup key]\<rparr>)"

text \<open>The loop \<open>for key in ks: release_key(key)\<close>.\<close>

primrec release_keys :: "env \<Rightarrow> string list \<Rightarrow> state \<Rightarrow> state" where
  "release_keys e [] s = s"
| "release_keys e (key # ks) s = release_keys e ks (release_key e key s)"

subsection \<open>The translators\<close>

definition process_hat :: "env \<Rightarrow> int \<times> int \<Rightarrow> state \<Rightarrow> state" where
  "process_hat e hat_value s =
     (let x = fst hat_value; y = snd hat_value;
          s1 = release_keys e [''w'', ''s'', ''a'', ''d''] s;
          s2 = (if y = 1 then press_key e ''w'' s1
                else if y = - 1 then press_key e ''s'' s1
                else s1)
      in if x = - 1 then press_key e ''a'' s2
         else if x = 1 then press_key e ''d'' s2
         else s2)"

text \<open>
  An axis value is a Python float. The function only compares it: the model takes the
  real number the float denotes, on which \<open>abs\<close>, \<open><\<close> and \<open>>\<close> agree with the float
  operations for every value that is not NaN (pygame reports axis positions in
  \<open>[-1, 1]\<close>). The literal \<open>0.3\<close> of the source is the double nearest to three
  tenths, which lies just below it; no double lies strictly between the two, and at that
  double itself (and at its negation) both readings reach the last branch, so taking
  \<open>deadzone\<close> to be three tenths changes no outcome.
\<close>

definition deadzone :: real where
  "deadzone = 0.3"

definition process_axis :: "env \<Rightarrow> int \<Rightarrow> real \<Rightarrow> state \<Rightarrow> state" where
  "process_axis e axis value0 s =
     (let v = (if \<bar>value0\<bar> < deadzone then 0 else value0)
      in if axis = 1 then
           (if v < - deadzone then release_key e ''s'' (press_key e ''w'' s)
            else if v > deadzone then release_key e ''w'' (press_key e ''s'' s)
            else release_key e ''s'' (release_key e ''w'' s))
         else if axis = 0 then
           (if v < - deadzone then release_key e ''d'' (press_key e ''a'' s)
            else if v > deadzone then release_key e ''a'' (press_key e ''d'' s)
            else release_key e ''d'' (release_key e ''a'' s))
         else s)"

definition process_button :: "env \<Rightarrow> int \<Rightarrow> bool \<Rightarrow> state \<Rightarrow> state" where
  "process_button e button pressed s =
     (case BUTTON_MAPPING button of
        None \<Rightarrow> s
      | Some key \<Rightarrow>
          if pressed then
            (if key = ''enter'' then release_key e ''enter'' (press_key e ''enter'' s)
             else press_key e key s)
          else
            (if key \<noteq> ''enter'' then release_key e key s else s))"

subsection \<open>The dispatcher\<close>

datatype event =
    QUIT
  | JOYHATMOTION "int \<times> int"
  | JOYAXISMOTION int real
  | JOYBUTTONDOWN int
  | JOYBUTTONUP int
  | OTHER_EVENT

text \<open>The body of \<open>for event in pygame.event.get()\<close>, for one event.\<close>

fun handle_event :: "env \<Rightarrow> event \<Rightarrow> state \<Rightarrow> state" where
  "handle_event e (JOYHATMOTION v) s = process_hat e v s"
| "handle_event e (JOYAXISMOTION axis v) s = process_axis e axis v s"
| "handle_event e (JOYBUTTONDOWN b) s = process_button e b True s"
| "handle_event e (JOYBUTTONUP b) s = process_button e b False s"
| "handle_event e QUIT s = s"
| "handle_event e OTHER_EVENT s = s"

primrec handle_events :: "env \<Rightarrow> event list \<Rightarrow> state \<Rightarrow> state" where
  "handle_events e [] s = s"
| "handle_events e (ev # evs) s = handle_events e evs (handle_event e ev s)"

text \<open>
  The \<open>while running\<close> loop over the batches that successive polls return. A batch that
  holds \<open>QUIT\<close> is still processed to its end and is the last one; the end of the list
  of batches stands for the keyboard interrupt.
\<close>

primrec main_loop :: "env \<Rightarrow> event list list \<Rightarrow> state \<Rightarrow> state" where
  "main_loop e [] s = s"
| "main_loop e (batch # batches) s =
     (let s1 = handle_events e batch s
      in if QUIT \<in> set batch then s1 else main_loop e batches s1)"

text \<open>
  The \<open>finally\<close> block: \<open>for key in list(pressed_keys): release_key(key)\<close>. Python fixes
  no order for the elements of a set, so the snapshot \<open>list(pressed_keys)\<close> is the
  argument \<open>ks\<close>: any list without repetition whose elements are the held keys.
\<close>

definition snapshot_of :: "string list \<Rightarrow> state \<Rightarrow> bool" where
  "snapshot_of ks s \<longleftrightarrow> distinct ks \<and> set ks = pressed_keys s"

definition drain :: "env \<Rightarrow> string list \<Rightarrow> state \<Rightarrow> state" where
  "drain e ks s = release_keys e ks s"

subsection \<open>Vocabulary of the properties\<close>

text \<open>The injector call that \<open>press_key\<close> makes for a key, and the one \<open>release_key\<close> makes.\<close>

definition press_call :: "env \<Rightarrow> string \<Rightarrow> inj_call" where
  "press_call e key =
     (if USE_PYNPUT e then Kb_press (kb_press_arg key) else Xdo_keydown key)"

definition release_call :: "env \<Rightarrow> string \<Rightarrow> inj_call" where
  "release_call e key =
     (if key = ''enter''
      then (if USE_PYNPUT e then Kb_release Key_enter else Xdo_keyup ''Return'')
      else (if USE_PYNPUT e then Kb_release (kb_release_arg key) else Xdo_keyup key))"

definition is_press :: "inj_call \<Rightarrow> bool" where
  "is_press c = (case c of Kb_press _ \<Rightarrow> True | Xdo_keydown _ \<Rightarrow> True | _ \<Rightarrow> False)"

text \<open>The calls made between an earlier state and a later one.\<close>

definition new_calls :: "state \<Rightarrow> state \<Rightarrow> inj_call list" where
  "new_calls s s' = drop (length (calls s)) (calls s')"

definition directional :: "string set" where
  "directional = {''w'', ''s'', ''a'', ''d''}"

text \<open>Two environments for concrete runs: pynput working, and pynput failing on every call.\<close>

definition pynput_ok :: env where
  "pynput_ok = \<lparr>USE_PYNPUT = True, raises = (\<lambda>_. False)\<rparr>"

definition pynput_failing :: env where
  "pynput_failing = \<lparr>USE_PYNPUT = True, raises = (\<lambda>_. True)\<rparr>"

definition xdotool_env :: env where
  "xdotool_env = \<lparr>USE_PYNPUT = False, raises = (\<lambda>_. False)\<rparr>"

section \<open>Basic facts about the operations\<close>

lemma pressed_keys_inject [simp]: "pressed_keys (inject e c m s) = pressed_keys s"
  by (simp add: inject_def)

lemma calls_inject [simp]: "calls (inject e c m s) = calls s @ [c]"
  by (simp add: inject_def)

lemma printed_inject:
  "printed (inject e c m s) = (if raises e (length (calls s)) then printed s @ [m] else printed s)"
  by (simp add: inject_def)

lemma pressed_keys_press_key:
  "pressed_keys (press_key e key s) =
     (if key = ''enter'' then pressed_keys s else insert key (pressed_keys s))"
  by (auto simp: press_key_def Let_def)

lemma calls_press_key:
  "calls (press_key e key s) =
     (if key \<noteq> ''enter'' \<and> key \<in> pressed_keys s then calls s
      else calls s @ [press_call e key])"
  by (simp add: press_key_def press_call_def Let_def)

lemma pressed_keys_release_key:
  "pressed_keys (release_key e key s) =
     (if key = ''enter'' then pressed_keys s else pressed_keys s - {key})"
  by (auto simp: release_key_def Let_def)

lemma calls_release_key:
  "calls (release_key e key s) =
     (if key \<noteq> ''enter'' \<and> key \<notin> pressed_keys s then calls s
      else calls s @ [release_call e key])"
  by (simp add: release_key_def release_call_def Let_def)

lemma press_key_held: "key \<noteq> ''enter'' \<Longrightarrow> key \<in> pressed_keys s \<Longrightarrow> press_key e key s = s"
  by (simp add: press_key_def)

lemma release_key_unheld: "key \<noteq> ''enter'' \<Longrightarrow> key \<notin> pressed_keys s \<Longrightarrow> release_key e key s = s"
  by (simp add: release_key_def)

lemma pressed_keys_release_keys:
  "''enter'' \<notin> set ks \<Longrightarrow> pressed_keys (release_keys e ks s) = pressed_keys s - set ks"
  by (induction ks arbitrary: s) (auto simp: pressed_keys_release_key)

lemma calls_release_keys:
  "''enter'' \<notin> set ks \<Longrightarrow> distinct ks \<Longrightarrow> set ks \<subseteq> pressed_keys s \<Longrightarrow>
     calls (release_keys e ks s) = calls s @ map (release_call e) ks"
proof (induction ks arbitrary: s)
  case Nil
  then show ?case by simp
next
  case (Cons k ks)
  have "set ks \<subseteq> pressed_keys (release_key e k s)"
    using Cons.prems by (auto simp: pressed_keys_release_key)
  with Cons show ?case
    by (simp add: calls_release_key)
qed

lemma pressed_keys_process_hat:
  "pressed_keys (process_hat e (x, y) s) =
     (pressed_keys s - directional)
       \<union> (if y = 1 then {''w''} else if y = - 1 then {''s''} else {})
       \<union> (if x = - 1 then {''a''} else if x = 1 then {''d''} else {})"
  by (auto simp: process_hat_def Let_def pressed_keys_press_key pressed_keys_release_key directional_def)

lemma pressed_keys_process_axis:
  "pressed_keys (process_axis e axis v s) =
     (if axis = 1 then
        (if v < - deadzone then insert ''w'' (pressed_keys s) - {''s''}
         else if v > deadzone then insert ''s'' (pressed_keys s) - {''w''}
         else pressed_keys s - {''w'', ''s''})
      else if axis = 0 then
        (if v < - deadzone then insert ''a'' (pressed_keys s) - {''d''}
         else if v > deadzone then insert ''d'' (pressed_keys s) - {''a''}
         else pressed_keys s - {''a'', ''d''})
      else pressed_keys s)"
  by (auto simp: process_axis_def Let_def deadzone_def pressed_keys_press_key pressed_keys_release_key)

lemma pressed_keys_process_button:
  "pressed_keys (process_button e b p s) \<subseteq> pressed_keys s \<union> directional"
  by (auto simp: process_button_def BUTTON_MAPPING_def directional_def pressed_keys_press_key pressed_keys_release_key split: option.splits if_splits)

lemma handle_event_subset:
  "pressed_keys (handle_event e ev s) \<subseteq> pressed_keys s \<union> directional"
proof (cases ev)
  case (JOYHATMOTION v)
  then show ?thesis
    by (cases v) (auto simp: pressed_keys_process_hat directional_def split: if_splits)
next
  case (JOYAXISMOTION axis v)
  then show ?thesis
    by (auto simp: pressed_keys_process_axis directional_def split: if_splits)
next
  case (JOYBUTTONDOWN b)
  then show ?thesis using pressed_keys_process_button by simp
next
  case (JOYBUTTONUP b)
  then show ?thesis using pressed_keys_process_button by simp
qed simp_all

lemma handle_events_subset:
  "pressed_keys (handle_events e evs s) \<subseteq> pressed_keys s \<union> directional"
proof (induction evs arbitrary: s)
  case Nil
  then show ?case by simp
next
  case (Cons ev evs)
  have "pressed_keys (handle_events e evs (handle_event e ev s))
          \<subseteq> pressed_keys (handle_event e ev s) \<union> directional"
    by (rule Cons.IH)
  also have "\<dots> \<subseteq> pressed_keys s \<union> directional"
    using handle_event_subset [of e ev s] by blast
  finally show ?case by simp
qed

lemma enter_not_directional: "''enter'' \<notin> directional"
  by (simp add: directional_def)

lemma main_loop_subset:
  "pressed_keys (main_loop e batches s) \<subseteq> pressed_keys s \<union> directional"
proof (induction batches arbitrary: s)
  case Nil
  then show ?case by simp
next
  case (Cons batch batches)
  have step: "pressed_keys (handle_events e batch s) \<subseteq> pressed_keys s \<union> directional"
    by (rule handle_events_subset)
  show ?case
  proof (cases "QUIT \<in> set batch")
    case True
    with step show ?thesis by simp
  next
    case False
    have "pressed_keys (main_loop e batches (handle_events e batch s))
            \<subseteq> pressed_keys (handle_events e batch s) \<union> directional"
      by (rule Cons.IH)
    with step False show ?thesis by (simp add: Let_def) blast
  qed
qed

lemma pressed_keys_initial [simp]: "pressed_keys initial = {}"
  by (simp add: initial_def)

subsection \<open>Draining\<close>

lemma count_list_map_inj_on:
  "inj_on f (set ks) \<Longrightarrow> distinct ks \<Longrightarrow> k \<in> set ks \<Longrightarrow> count_list (map f ks) (f k) = 1"
proof (induction ks)
  case Nil
  then show ?case by simp
next
  case (Cons a ks)
  show ?case
  proof (cases "a = k")
    case True
    with Cons.prems have "f k \<notin> f ` set ks"
      by (auto simp: inj_on_def)
    then have "count_list (map f ks) (f k) = 0"
      by (simp add: count_list_0_iff)
    with True show ?thesis by simp
  next
    case False
    with Cons.prems have "f a \<noteq> f k" "k \<in> set ks"
      by (auto simp: inj_on_def)
    with Cons show ?thesis by simp
  qed
qed

lemma release_call_inj_on: "inj_on (release_call e) directional"
  by (auto simp: inj_on_def release_call_def directional_def kb_release_arg_def)

lemma snapshot_of_empty: "pressed_keys s = {} \<Longrightarrow> snapshot_of ks s \<Longrightarrow> ks = []"
  by (simp add: snapshot_of_def)

lemma drain_snapshot:
  assumes "''enter'' \<notin> pressed_keys s" and "snapshot_of ks s"
  shows "pressed_keys (drain e ks s) = {}"
    and "calls (drain e ks s) = calls s @ map (release_call e) ks"
  using assms
  by (simp_all add: drain_def snapshot_of_def pressed_keys_release_keys calls_release_keys)

subsection \<open>Calls made by an axis event\<close>

lemma new_callsI: "calls s' = calls s @ xs \<Longrightarrow> new_calls s s' = xs"
  by (simp add: new_calls_def)

lemma press_key_appends:
  "\<exists>xs. calls (press_key e key s) = calls s @ xs \<and> set xs \<subseteq> {press_call e key}"
  by (simp add: calls_press_key)

lemma release_key_appends:
  "\<exists>xs. calls (release_key e key s) = calls s @ xs \<and> set xs \<subseteq> {release_call e key}"
  by (simp add: calls_release_key)

text \<open>The calls of one axis event, for the pair of keys of its channel.\<close>

lemma axis_pair_calls:
  assumes "s' = release_key e k2 (press_key e k1 s) \<or> s' = release_key e k2 (release_key e k1 s)"
  shows "calls s' = calls s @ new_calls s s'
       \<and> set (new_calls s s')
           \<subseteq> {press_call e k1, release_call e k1, press_call e k2, release_call e k2}"
proof -
  from assms obtain s1 where s1: "s1 = press_key e k1 s \<or> s1 = release_key e k1 s"
    and s': "s' = release_key e k2 s1"
    by blast
  from s1 obtain xs where xs: "calls s1 = calls s @ xs"
    and in1: "set xs \<subseteq> {press_call e k1, release_call e k1}"
    using press_key_appends [of e k1 s] release_key_appends [of e k1 s] by auto
  from s' obtain ys where ys: "calls s' = calls s1 @ ys" and in2: "set ys \<subseteq> {release_call e k2}"
    using release_key_appends [of e k2 s1] by auto
  from xs ys have all: "calls s' = calls s @ (xs @ ys)"
    by simp
  then have "new_calls s s' = xs @ ys"
    by (rule new_callsI)
  with all in1 in2 show ?thesis
    by auto
qed

lemma process_axis_cases:
  "process_axis e axis v s =
     (if axis = 1 then
        (if v < - deadzone then release_key e ''s'' (press_key e ''w'' s)
         else if v > deadzone then release_key e ''w'' (press_key e ''s'' s)
         else release_key e ''s'' (release_key e ''w'' s))
      else if axis = 0 then
        (if v < - deadzone then release_key e ''d'' (press_key e ''a'' s)
         else if v > deadzone then release_key e ''a'' (press_key e ''d'' s)
         else release_key e ''d'' (release_key e ''a'' s))
      else s)"
  by (auto simp: process_axis_def Let_def deadzone_def)

lemma vertical_calls:
  "calls (process_axis e 1 v s) = calls s @ new_calls s (process_axis e 1 v s)
   \<and> set (new_calls s (process_axis e 1 v s))
       \<subseteq> {press_call e ''w'', release_call e ''w'', press_call e ''s'', release_call e ''s''}"
proof -
  have "process_axis e 1 v s = release_key e ''s'' (press_key e ''w'' s)
      \<or> process_axis e 1 v s = release_key e ''w'' (press_key e ''s'' s)
      \<or> process_axis e 1 v s = release_key e ''s'' (release_key e ''w'' s)"
    by (simp add: process_axis_cases)
  then consider (up) "process_axis e 1 v s = release_key e ''s'' (press_key e ''w'' s)"
    | (down) "process_axis e 1 v s = release_key e ''w'' (press_key e ''s'' s)"
    | (rest) "process_axis e 1 v s = release_key e ''s'' (release_key e ''w'' s)"
    by blast
  then show ?thesis
  proof cases
    case up
    with axis_pair_calls [of "process_axis e 1 v s" e "''s''" "''w''" s] show ?thesis by auto
  next
    case down
    with axis_pair_calls [of "process_axis e 1 v s" e "''w''" "''s''" s] show ?thesis by auto
  next
    case rest
    with axis_pair_calls [of "process_axis e 1 v s" e "''s''" "''w''" s] show ?thesis by auto
  qed
qed

lemma horizontal_calls:
  "calls (process_axis e 0 v s) = calls s @ new_calls s (process_axis e 0 v s)
   \<and> set (new_calls s (process_axis e 0 v s))
       \<subseteq> {press_call e ''a'', release_call e ''a'', press_call e ''d'', release_call e ''d''}"
proof -
  have "process_axis e 0 v s = release_key e ''d'' (press_key e ''a'' s)
      \<or> process_axis e 0 v s = release_key e ''a'' (press_key e ''d'' s)
      \<or> process_axis e 0 v s = release_key e ''d'' (release_key e ''a'' s)"
    by (simp add: process_axis_cases)
  then consider (left) "process_axis e 0 v s = release_key e ''d'' (press_key e ''a'' s)"
    | (right) "process_axis e 0 v s = release_key e ''a'' (press_key e ''d'' s)"
    | (rest) "process_axis e 0 v s = release_key e ''d'' (release_key e ''a'' s)"
    by blast
  then show ?thesis
  proof cases
    case left
    with axis_pair_calls [of "process_axis e 0 v s" e "''d''" "''a''" s] show ?thesis by auto
  next
    case right
    with axis_pair_calls [of "process_axis e 0 v s" e "''a''" "''d''" s] show ?thesis by auto
  next
    case rest
    with axis_pair_calls [of "process_axis e 0 v s" e "''d''" "''a''" s] show ?thesis by auto
  qed
qed

lemma vertical_horizontal_calls_disjoint:
  "{press_call e ''w'', release_call e ''w'', press_call e ''s'', release_call e ''s''}
     \<inter> {press_call e ''a'', release_call e ''a'', press_call e ''d'', release_call e ''d''} = {}"
  by (simp add: press_call_def release_call_def kb_press_arg_def kb_release_arg_def)

section \<open>Properties of the key-state tracker\<close>

subsection \<open>A failing press\<close>

text \<open>
  With pynput raising on every call, pressing \<open>''w''\<close> from the initial state prints the
  error and leaves \<open>''w''\<close> in \<open>pressed_keys\<close>: the key was added before the injector was
  called, and the handler does not take it out again.
\<close>

theorem press_key_failure_not_rolled_back_counterexample:
  "USE_PYNPUT pynput_failing \<and> raises pynput_failing (length (calls initial))
   \<and> ''w'' \<notin> pressed_keys initial
   \<and> printed (press_key pynput_failing ''w'' initial) = [Error_pressing ''w'']
   \<and> ''w'' \<in> pressed_keys (press_key pynput_failing ''w'' initial)
   \<and> pressed_keys (press_key pynput_failing ''w'' initial) \<noteq> pressed_keys initial"
  by (simp add: press_key_def inject_def pynput_failing_def initial_def)

text \<open>
  C1 (as amended). With the pynput backend (\<open>USE_PYNPUT\<close> true), the only backend whose
  injector calls sit inside \<open>try\<close>/\<open>except\<close>: when \<open>press_key key\<close> reaches the
  injector (the key is \<open>''enter''\<close> or is not held) and the press raises, the failure is
  reported: the message \<open>Error pressing key\<close> is printed, the one call stays logged, and
  execution goes on. The held set is not rolled back: for \<open>''enter''\<close> it is unchanged,
  and every other key is a member of \<open>pressed_keys\<close> after the failing call. Nothing is
  stated about a raising call of the xdotool fallback, which no handler catches.
\<close>

theorem press_key_failure_keeps_key:
  assumes "USE_PYNPUT e" and "raises e (length (calls s))"
    and "key = ''enter'' \<or> key \<notin> pressed_keys s"
  shows "printed (press_key e key s) = printed s @ [Error_pressing key]
       \<and> calls (press_key e key s) = calls s @ [press_call e key]
       \<and> pressed_keys (press_key e key s) =
           (if key = ''enter'' then pressed_keys s else insert key (pressed_keys s))
       \<and> (key \<noteq> ''enter'' \<longrightarrow> key \<in> pressed_keys (press_key e key s))"
  using assms by (auto simp: press_key_def inject_def press_call_def Let_def)

theorem press_key_failure_keeps_key_witness:
  "printed (press_key pynput_failing ''a'' initial) = printed initial @ [Error_pressing ''a'']
   \<and> calls (press_key pynput_failing ''a'' initial) = [Kb_press Key_left]
   \<and> pressed_keys (press_key pynput_failing ''a'' initial) = {''a''}"
  using press_key_failure_keeps_key [of pynput_failing initial "''a''"]
  by (simp add: pynput_failing_def initial_def press_call_def kb_press_arg_def)

subsection \<open>Releasing a key that is not held\<close>

text \<open>
  \<open>release_key\<close> handles \<open>''enter''\<close> before it looks at \<open>pressed_keys\<close>: releasing
  \<open>''enter''\<close> in the initial state, where nothing is held, calls the injector once.
\<close>

theorem release_key_enter_unheld_counterexample:
  "''enter'' \<notin> pressed_keys initial
   \<and> calls (release_key pynput_ok ''enter'' initial) = [Kb_release Key_enter]
   \<and> calls (release_key pynput_ok ''enter'' initial) \<noteq> calls initial"
  by (simp add: release_key_def inject_def pynput_ok_def initial_def)

text \<open>
  C2 (as amended). For every key other than \<open>''enter''\<close>, \<open>release_key\<close> on a key that is
  not held changes nothing: no injector call, no change of \<open>pressed_keys\<close>, nothing
  printed. For \<open>''enter''\<close> it leaves \<open>pressed_keys\<close> unchanged and issues exactly one
  injector release call.
\<close>

theorem release_key_unheld_noop:
  assumes "key \<notin> pressed_keys s"
  shows "(key \<noteq> ''enter'' \<longrightarrow> release_key e key s = s)
       \<and> (key = ''enter'' \<longrightarrow>
            pressed_keys (release_key e key s) = pressed_keys s
          \<and> calls (release_key e key s) = calls s @ [release_call e ''enter''])"
  using assms by (simp add: release_key_unheld pressed_keys_release_key calls_release_key)

theorem release_key_unheld_noop_witness:
  "release_key xdotool_env ''d'' initial = initial
   \<and> calls (release_key xdotool_env ''enter'' initial) = [Xdo_keyup ''Return'']"
  using release_key_unheld_noop [of "''d''" initial xdotool_env]
    release_key_unheld_noop [of "''enter''" initial xdotool_env]
  by (simp add: initial_def release_call_def xdotool_env_def)

subsection \<open>Pressing twice\<close>

text \<open>
  C3. For every directional key, a second \<open>press_key\<close> right after the first finds the
  key in \<open>pressed_keys\<close> and changes nothing (no call, no change of state); the two calls
  together, started with the key not held, issue exactly one injector call, the press of
  that key.
\<close>

theorem press_key_twice:
  assumes "key \<in> directional"
  shows "press_key e key (press_key e key s) = press_key e key s
       \<and> key \<in> pressed_keys (press_key e key s)
       \<and> (key \<notin> pressed_keys s \<longrightarrow>
            calls (press_key e key (press_key e key s)) = calls s @ [press_call e key]
          \<and> filter is_press (new_calls s (press_key e key (press_key e key s)))
              = [press_call e key])"
proof -
  from assms have ne: "key \<noteq> ''enter''"
    by (auto simp: directional_def)
  then have held: "key \<in> pressed_keys (press_key e key s)"
    by (simp add: pressed_keys_press_key)
  with ne have twice: "press_key e key (press_key e key s) = press_key e key s"
    by (rule press_key_held)
  have "is_press (press_call e key)"
    by (simp add: is_press_def press_call_def)
  then show ?thesis
    using ne held twice by (simp add: calls_press_key new_calls_def)
qed

theorem press_key_twice_witness:
  "press_key pynput_ok ''w'' (press_key pynput_ok ''w'' initial) = press_key pynput_ok ''w'' initial
   \<and> calls (press_key pynput_ok ''w'' (press_key pynput_ok ''w'' initial)) = [Kb_press Key_up]"
  using press_key_twice [of "''w''" pynput_ok initial]
  by (auto simp: directional_def initial_def press_call_def pynput_ok_def kb_press_arg_def)

section \<open>Properties of the translators\<close>

subsection \<open>Hat events\<close>

text \<open>
  C4. After \<open>process_hat (x, y)\<close>, from any state, the held directional keys are given by
  the hat position alone: \<open>''w''\<close> (Up) is held iff \<open>y = 1\<close>, \<open>''s''\<close> (Down) iff
  \<open>y = -1\<close>, \<open>''a''\<close> (Left) iff \<open>x = -1\<close>, \<open>''d''\<close> (Right) iff \<open>x = 1\<close>; so Up and Down
  are never held together, nor Left and Right. This holds for every pair of integers,
  the nine hat positions among them.
\<close>

theorem process_hat_matches:
  "(''w'' \<in> pressed_keys (process_hat e (x, y) s) \<longleftrightarrow> y = 1)
   \<and> (''s'' \<in> pressed_keys (process_hat e (x, y) s) \<longleftrightarrow> y = - 1)
   \<and> (''a'' \<in> pressed_keys (process_hat e (x, y) s) \<longleftrightarrow> x = - 1)
   \<and> (''d'' \<in> pressed_keys (process_hat e (x, y) s) \<longleftrightarrow> x = 1)
   \<and> \<not> (''w'' \<in> pressed_keys (process_hat e (x, y) s)
         \<and> ''s'' \<in> pressed_keys (process_hat e (x, y) s))
   \<and> \<not> (''a'' \<in> pressed_keys (process_hat e (x, y) s)
         \<and> ''d'' \<in> pressed_keys (process_hat e (x, y) s))"
  by (simp add: pressed_keys_process_hat directional_def)

theorem process_hat_matches_witness:
  "''w'' \<in> pressed_keys (process_hat pynput_ok (0, 1) initial)
   \<and> ''s'' \<notin> pressed_keys (process_hat pynput_ok (0, 1) initial)
   \<and> ''a'' \<notin> pressed_keys (process_hat pynput_ok (0, 1) initial)
   \<and> ''d'' \<notin> pressed_keys (process_hat pynput_ok (0, 1) initial)
   \<and> ''d'' \<in> pressed_keys (process_hat pynput_ok (1, 0) (process_hat pynput_ok (0, 1) initial))
   \<and> ''w'' \<notin> pressed_keys (process_hat pynput_ok (1, 0) (process_hat pynput_ok (0, 1) initial))"
  using process_hat_matches [of pynput_ok 0 1 initial]
    process_hat_matches [of pynput_ok 1 0 "process_hat pynput_ok (0, 1) initial"]
  by simp

subsection \<open>The vertical axis\<close>

text \<open>
  C5. After \<open>process_axis 1 v\<close>, from any state: a value strictly between \<open>-0.3\<close> and
  \<open>0.3\<close> leaves neither Up nor Down held; a value above \<open>0.3\<close> leaves Down held and Up
  released; a value below \<open>-0.3\<close> leaves Up held and Down released.
\<close>

theorem process_axis_vertical:
  "(- 0.3 < v \<and> v < 0.3 \<longrightarrow>
      ''w'' \<notin> pressed_keys (process_axis e 1 v s) \<and> ''s'' \<notin> pressed_keys (process_axis e 1 v s))
   \<and> (v > 0.3 \<longrightarrow>
      ''s'' \<in> pressed_keys (process_axis e 1 v s) \<and> ''w'' \<notin> pressed_keys (process_axis e 1 v s))
   \<and> (v < - 0.3 \<longrightarrow>
      ''w'' \<in> pressed_keys (process_axis e 1 v s) \<and> ''s'' \<notin> pressed_keys (process_axis e 1 v s))"
  by (simp add: pressed_keys_process_axis deadzone_def)

theorem process_axis_vertical_witness:
  "- 0.3 < (0.1::real) \<and> (0.1::real) < 0.3
   \<and> ''w'' \<notin> pressed_keys (process_axis pynput_ok 1 0.1 (process_axis pynput_ok 1 (- 0.5) initial))
   \<and> ''s'' \<notin> pressed_keys (process_axis pynput_ok 1 0.1 (process_axis pynput_ok 1 (- 0.5) initial))
   \<and> (0.5::real) > 0.3
   \<and> ''s'' \<in> pressed_keys (process_axis pynput_ok 1 0.5 initial)
   \<and> ''w'' \<notin> pressed_keys (process_axis pynput_ok 1 0.5 initial)
   \<and> (- 0.5::real) < - 0.3
   \<and> ''w'' \<in> pressed_keys (process_axis pynput_ok 1 (- 0.5) initial)
   \<and> ''s'' \<notin> pressed_keys (process_axis pynput_ok 1 (- 0.5) initial)"
  using process_axis_vertical [of "0.1" pynput_ok "process_axis pynput_ok 1 (- 0.5) initial"]
    process_axis_vertical [of "0.5" pynput_ok initial]
    process_axis_vertical [of "- 0.5" pynput_ok initial]
  by simp

subsection \<open>Confirm\<close>

text \<open>
  C6. Whatever events are processed from the initial state, by \<open>handle_events\<close> or by
  the whole polling loop, \<open>''enter''\<close> is never a member of \<open>pressed_keys\<close>; pressing
  \<open>''enter''\<close> leaves \<open>pressed_keys\<close> as it is.
\<close>

theorem enter_never_held:
  "''enter'' \<notin> pressed_keys (handle_events e evs initial)
   \<and> ''enter'' \<notin> pressed_keys (main_loop e batches initial)
   \<and> pressed_keys (press_key e ''enter'' s) = pressed_keys s"
proof -
  have "pressed_keys (handle_events e evs initial) \<subseteq> directional"
    using handle_events_subset [of e evs initial] by simp
  moreover have "pressed_keys (main_loop e batches initial) \<subseteq> directional"
    using main_loop_subset [of e batches initial] by simp
  ultimately show ?thesis
    using enter_not_directional by (auto simp: pressed_keys_press_key)
qed

theorem enter_never_held_witness:
  "''enter'' \<notin> pressed_keys
      (handle_events pynput_ok [JOYBUTTONDOWN 4, JOYBUTTONUP 4, JOYBUTTONDOWN 5, JOYBUTTONDOWN 4] initial)
   \<and> pressed_keys (press_key pynput_ok ''enter'' initial) = {}"
  using enter_never_held
    [of pynput_ok "[JOYBUTTONDOWN 4, JOYBUTTONUP 4, JOYBUTTONDOWN 5, JOYBUTTONDOWN 4]" _ initial]
  by simp

text \<open>
  C7. Buttons 4 and 5: a button-down issues exactly two injector calls, the press of
  \<open>''enter''\<close> and then its release, and leaves \<open>pressed_keys\<close> unchanged; a button-up
  changes nothing at all.
\<close>

theorem process_button_confirm:
  assumes "button = 4 \<or> button = 5"
  shows "calls (process_button e button True s)
           = calls s @ [press_call e ''enter'', release_call e ''enter'']
       \<and> is_press (press_call e ''enter'') \<and> \<not> is_press (release_call e ''enter'')
       \<and> pressed_keys (process_button e button True s) = pressed_keys s
       \<and> process_button e button False s = s"
  using assms
  by (auto simp: process_button_def BUTTON_MAPPING_def calls_press_key calls_release_key
      pressed_keys_press_key pressed_keys_release_key is_press_def press_call_def release_call_def)

theorem process_button_confirm_witness:
  "calls (process_button pynput_ok 4 True initial) = [Kb_press Key_enter, Kb_release Key_enter]
   \<and> pressed_keys (process_button pynput_ok 4 True initial) = {}
   \<and> process_button pynput_ok 4 False initial = initial
   \<and> calls (process_button xdotool_env 5 True initial) = [Xdo_keydown ''enter'', Xdo_keyup ''Return'']"
  using process_button_confirm [of 4 pynput_ok initial]
    process_button_confirm [of 5 xdotool_env initial]
  by (simp add: press_call_def release_call_def pynput_ok_def xdotool_env_def initial_def
      kb_press_arg_def)

section \<open>Invariants of the dispatcher\<close>

text \<open>
  C9. Whatever events are processed from the initial state, \<open>pressed_keys\<close> holds only
  directional keys: it is a subset of \<open>{''w'', ''s'', ''a'', ''d''}\<close>.
\<close>

theorem held_keys_directional:
  "pressed_keys (handle_events e evs initial) \<subseteq> {''w'', ''s'', ''a'', ''d''}
   \<and> pressed_keys (main_loop e batches initial) \<subseteq> {''w'', ''s'', ''a'', ''d''}"
  using handle_events_subset [of e evs initial] main_loop_subset [of e batches initial]
  by (simp add: directional_def)

theorem held_keys_directional_witness:
  "pressed_keys (handle_events pynput_ok
      [JOYHATMOTION (1, - 1), JOYAXISMOTION 0 (- 0.5), JOYBUTTONDOWN 0, JOYBUTTONDOWN 4] initial)
     \<subseteq> {''w'', ''s'', ''a'', ''d''}"
  using held_keys_directional
    [of pynput_ok "[JOYHATMOTION (1, - 1), JOYAXISMOTION 0 (- 0.5), JOYBUTTONDOWN 0, JOYBUTTONDOWN 4]"]
  by simp

section \<open>Shutdown\<close>

text \<open>
  C8. In every state reached by processing events from the initial state, draining over
  any snapshot \<open>ks\<close> of the held keys empties \<open>pressed_keys\<close> and issues exactly the
  release calls of the keys of \<open>ks\<close>: one call for each key that was held, and no other
  call. When nothing is held the drain changes nothing, and a second drain right after
  the first changes nothing.
\<close>

theorem drain_complete:
  assumes "snapshot_of ks (handle_events e evs initial)"
  shows "pressed_keys (drain e ks (handle_events e evs initial)) = {}
       \<and> new_calls (handle_events e evs initial) (drain e ks (handle_events e evs initial))
           = map (release_call e) ks
       \<and> (\<forall>k \<in> pressed_keys (handle_events e evs initial).
            count_list (new_calls (handle_events e evs initial)
                          (drain e ks (handle_events e evs initial))) (release_call e k) = 1)
       \<and> length (new_calls (handle_events e evs initial)
                   (drain e ks (handle_events e evs initial)))
           = card (pressed_keys (handle_events e evs initial))
       \<and> (pressed_keys (handle_events e evs initial) = {} \<longrightarrow>
            drain e ks (handle_events e evs initial) = handle_events e evs initial)
       \<and> (\<forall>ks'. snapshot_of ks' (drain e ks (handle_events e evs initial)) \<longrightarrow>
            drain e ks' (drain e ks (handle_events e evs initial))
              = drain e ks (handle_events e evs initial))"
proof -
  define s where "s = handle_events e evs initial"
  have sub: "pressed_keys s \<subseteq> directional"
    using handle_events_subset [of e evs initial] by (simp add: s_def)
  then have ne: "''enter'' \<notin> pressed_keys s"
    using enter_not_directional by blast
  have snap: "snapshot_of ks s"
    using assms by (simp add: s_def)
  have empty: "pressed_keys (drain e ks s) = {}"
    using ne snap by (rule drain_snapshot)
  have cs: "calls (drain e ks s) = calls s @ map (release_call e) ks"
    using ne snap by (rule drain_snapshot)
  then have new: "new_calls s (drain e ks s) = map (release_call e) ks"
    by (simp add: new_calls_def)
  have inj: "inj_on (release_call e) (set ks)"
    using release_call_inj_on sub snap by (auto simp: snapshot_of_def intro: inj_on_subset)
  have one: "\<forall>k \<in> pressed_keys s. count_list (new_calls s (drain e ks s)) (release_call e k) = 1"
    using inj snap by (simp add: new snapshot_of_def count_list_map_inj_on)
  have len: "length (new_calls s (drain e ks s)) = card (pressed_keys s)"
    using snap distinct_card [of ks] by (simp add: new snapshot_of_def)
  have noop: "pressed_keys s = {} \<longrightarrow> drain e ks s = s"
    using snap by (auto simp: drain_def dest: snapshot_of_empty)
  have again: "\<forall>ks'. snapshot_of ks' (drain e ks s) \<longrightarrow> drain e ks' (drain e ks s) = drain e ks s"
    using empty by (auto simp: drain_def dest: snapshot_of_empty)
  show ?thesis
    using empty new one len noop again unfolding s_def by blast
qed

theorem drain_complete_witness:
  "snapshot_of [''a'', ''w''] (handle_events pynput_ok [JOYBUTTONDOWN 0, JOYBUTTONDOWN 2] initial)
   \<and> pressed_keys (drain pynput_ok [''a'', ''w'']
        (handle_events pynput_ok [JOYBUTTONDOWN 0, JOYBUTTONDOWN 2] initial)) = {}
   \<and> new_calls (handle_events pynput_ok [JOYBUTTONDOWN 0, JOYBUTTONDOWN 2] initial)
        (drain pynput_ok [''a'', ''w'']
           (handle_events pynput_ok [JOYBUTTONDOWN 0, JOYBUTTONDOWN 2] initial))
       = [Kb_release Key_left, Kb_release Key_up]
   \<and> drain pynput_ok [] (drain pynput_ok [''a'', ''w'']
        (handle_events pynput_ok [JOYBUTTONDOWN 0, JOYBUTTONDOWN 2] initial))
       = drain pynput_ok [''a'', ''w'']
           (handle_events pynput_ok [JOYBUTTONDOWN 0, JOYBUTTONDOWN 2] initial)"
proof -
  have held: "pressed_keys (handle_events pynput_ok [JOYBUTTONDOWN 0, JOYBUTTONDOWN 2] initial)
                = {''w'', ''a''}"
    by (auto simp: process_button_def BUTTON_MAPPING_def pressed_keys_press_key)
  then have snap: "snapshot_of [''a'', ''w'']
      (handle_events pynput_ok [JOYBUTTONDOWN 0, JOYBUTTONDOWN 2] initial)"
    by (auto simp: snapshot_of_def)
  from drain_complete [OF snap] snap show ?thesis
    by (auto simp: release_call_def pynput_ok_def kb_release_arg_def snapshot_of_def)
qed

section \<open>Frame of an axis event\<close>

text \<open>
  C10. An event of the vertical axis (index 1) changes the membership of neither
  \<open>''a''\<close> nor \<open>''d''\<close> in \<open>pressed_keys\<close>, only appends to the log of calls, and
  appends no press or release call of \<open>''a''\<close> or \<open>''d''\<close>; an event of the horizontal
  axis (index 0) does the same for \<open>''w''\<close> and \<open>''s''\<close>; an event of any other axis
  returns the state unchanged, so it makes no injector call.
\<close>

theorem process_axis_frame:
  "(''a'' \<in> pressed_keys (process_axis e 1 v s) \<longleftrightarrow> ''a'' \<in> pressed_keys s)
   \<and> (''d'' \<in> pressed_keys (process_axis e 1 v s) \<longleftrightarrow> ''d'' \<in> pressed_keys s)
   \<and> calls (process_axis e 1 v s) = calls s @ new_calls s (process_axis e 1 v s)
   \<and> (\<forall>k \<in> {''a'', ''d''}.
        press_call e k \<notin> set (new_calls s (process_axis e 1 v s))
      \<and> release_call e k \<notin> set (new_calls s (process_axis e 1 v s)))
   \<and> (''w'' \<in> pressed_keys (process_axis e 0 v s) \<longleftrightarrow> ''w'' \<in> pressed_keys s)
   \<and> (''s'' \<in> pressed_keys (process_axis e 0 v s) \<longleftrightarrow> ''s'' \<in> pressed_keys s)
   \<and> calls (process_axis e 0 v s) = calls s @ new_calls s (process_axis e 0 v s)
   \<and> (\<forall>k \<in> {''w'', ''s''}.
        press_call e k \<notin> set (new_calls s (process_axis e 0 v s))
      \<and> release_call e k \<notin> set (new_calls s (process_axis e 0 v s)))
   \<and> (axis \<noteq> 0 \<and> axis \<noteq> 1 \<longrightarrow> process_axis e axis v s = s)"
proof -
  have held1: "(''a'' \<in> pressed_keys (process_axis e 1 v s) \<longleftrightarrow> ''a'' \<in> pressed_keys s)
      \<and> (''d'' \<in> pressed_keys (process_axis e 1 v s) \<longleftrightarrow> ''d'' \<in> pressed_keys s)"
    by (simp add: pressed_keys_process_axis)
  have held0: "(''w'' \<in> pressed_keys (process_axis e 0 v s) \<longleftrightarrow> ''w'' \<in> pressed_keys s)
      \<and> (''s'' \<in> pressed_keys (process_axis e 0 v s) \<longleftrightarrow> ''s'' \<in> pressed_keys s)"
    by (simp add: pressed_keys_process_axis)
  have other: "axis \<noteq> 0 \<and> axis \<noteq> 1 \<longrightarrow> process_axis e axis v s = s"
    by (simp add: process_axis_cases)
  have calls1: "\<forall>k \<in> {''a'', ''d''}.
        press_call e k \<notin> set (new_calls s (process_axis e 1 v s))
      \<and> release_call e k \<notin> set (new_calls s (process_axis e 1 v s))"
    using vertical_calls [of e v s] vertical_horizontal_calls_disjoint [of e] by blast
  have calls0: "\<forall>k \<in> {''w'', ''s''}.
        press_call e k \<notin> set (new_calls s (process_axis e 0 v s))
      \<and> release_call e k \<notin> set (new_calls s (process_axis e 0 v s))"
    using horizontal_calls [of e v s] vertical_horizontal_calls_disjoint [of e] by blast
  show ?thesis
    using held1 held0 other calls1 calls0 vertical_calls [of e v s] horizontal_calls [of e v s]
    by blast
qed

theorem process_axis_frame_witness:
  "''a'' \<in> pressed_keys (process_axis pynput_ok 1 (- 0.5) (press_key pynput_ok ''a'' initial))
   \<and> Kb_press Key_left \<notin> set (new_calls (press_key pynput_ok ''a'' initial)
        (process_axis pynput_ok 1 (- 0.5) (press_key pynput_ok ''a'' initial)))
   \<and> Kb_release Key_left \<notin> set (new_calls (press_key pynput_ok ''a'' initial)
        (process_axis pynput_ok 1 (- 0.5) (press_key pynput_ok ''a'' initial)))
   \<and> (2::int) \<noteq> 0 \<and> (2::int) \<noteq> 1
   \<and> process_axis pynput_ok 2 (- 0.5) (press_key pynput_ok ''a'' initial)
       = press_key pynput_ok ''a'' initial"
  using process_axis_frame [of pynput_ok "- 0.5" "press_key pynput_ok ''a'' initial" 2]
  by (simp add: pressed_keys_press_key press_call_def release_call_def pynput_ok_def
      kb_press_arg_def kb_release_arg_def)

end
